theory Spec2Isabelle
  imports Complex_Main
begin

section \<open>Data model\<close>

text \<open>
  A person is the dictionary that \<open>FamilyModel.add_person\<close> builds: eight keys, all
  present. The key \<open>"id"\<close> is the field \<open>ident\<close>, the keys \<open>"x"\<close> and \<open>"y"\<close> are
  \<open>pos_x\<close> and \<open>pos_y\<close> (Python \<open>None\<close> is \<open>None\<close>). Python integers are unbounded,
  hence \<open>int\<close>. Since every key is present, \<open>p.get("hijos", [])\<close> and
  \<open>p.setdefault("hijos", [])\<close> are both the list stored under \<open>"hijos"\<close>.

  The values under \<open>"padres"\<close> and \<open>"hijos"\<close> are list objects, which Python passes and
  stores by reference and changes in place. A stored person (\<open>addr person\<close>) therefore
  holds the addresses of its two lists; the lists themselves live in a heap. The same
  record with the lists themselves in these two fields (\<open>int list person\<close>) is the content
  of a person, which is what \<open>json.dump\<close> writes and what the layout reads.
\<close>

type_synonym addr = nat

record 'l person =
  ident :: int
  nombre :: string
  fecha_nacimiento :: string
  padres :: 'l
  hijos :: 'l
  descripcion :: string
  pos_x :: "real option"
  pos_y :: "real option"

type_synonym list_heap = "addr \<Rightarrow> int list"

text \<open>
  The state of a \<open>FamilyModel\<close> and of the list objects around it: the in-memory list
  \<open>self.people\<close>, the heap of list objects (every address from \<open>next_addr\<close> on is unused),
  and the content of the JSON file \<open>self.filename\<close> (\<open>None\<close> when the file does not
  exist).
\<close>

record family_model =
  people :: "addr person list"
  heap :: list_heap
  next_addr :: addr
  disk :: "int list person list option"

definition contents :: "list_heap \<Rightarrow> addr person \<Rightarrow> int list person" where
  "contents h p =
     \<lparr>ident = ident p, nombre = nombre p, fecha_nacimiento = fecha_nacimiento p,
      padres = h (padres p), hijos = h (hijos p), descripcion = descripcion p,
      pos_x = pos_x p, pos_y = pos_y p\<rparr>"

definition view :: "family_model \<Rightarrow> int list person list" where
  "view m = map (contents (heap m)) (people m)"

definition save :: "family_model \<Rightarrow> family_model" where
  "save m = m\<lparr>disk := Some (view m)\<rparr>"

text \<open>Creating a list object: the caller's \<open>[1, 2]\<close>, the \<open>[]\<close> of \<open>parents or []\<close>.\<close>

definition new_list :: "int list \<Rightarrow> family_model \<Rightarrow> addr \<times> family_model" where
  "new_list xs m =
     (next_addr m, m\<lparr>heap := (heap m)(next_addr m := xs), next_addr := Suc (next_addr m)\<rparr>)"

text \<open>\<open>json.load\<close> builds every person with two list objects of its own.\<close>

fun install ::
  "int list person list \<Rightarrow> addr \<Rightarrow> list_heap \<Rightarrow> addr person list \<times> list_heap \<times> addr" where
  "install [] n h = ([], h, n)"
| "install (v # vs) n h =
     (case install vs (n + 2) (h(n := padres v, Suc n := hijos v)) of
        (ps, h', n') \<Rightarrow>
          (\<lparr>ident = ident v, nombre = nombre v, fecha_nacimiento = fecha_nacimiento v,
            padres = n, hijos = Suc n, descripcion = descripcion v,
            pos_x = pos_x v, pos_y = pos_y v\<rparr> # ps, h', n'))"

definition load :: "family_model \<Rightarrow> family_model" where
  "load m =
     (case disk m of
        Some vs \<Rightarrow>
          (case install vs (next_addr m) (heap m) of
             (ps, h, n) \<Rightarrow> m\<lparr>people := ps, heap := h, next_addr := n\<rparr>)
      | None \<Rightarrow> m\<lparr>people := []\<rparr>)"

text \<open>\<open>FamilyModel(filename)\<close> in a fresh process, the file holding \<open>file\<close>.\<close>

definition init_model :: "int list person list option \<Rightarrow> family_model" where
  "init_model file = load \<lparr>people = [], heap = (\<lambda>_. []), next_addr = 0, disk = file\<rparr>"

section \<open>Lookup and id generation\<close>

text \<open>\<open>max(iterable, default=d)\<close>: the default is used for the empty iterable only.\<close>

definition max_default :: "int list \<Rightarrow> int \<Rightarrow> int" where
  "max_default xs d = (case xs of [] \<Rightarrow> d | y # ys \<Rightarrow> fold max ys y)"

definition generate_id :: "'l person list \<Rightarrow> int" where
  "generate_id ps = max_default (map ident ps) 0 + 1"

text \<open>\<open>get\<close> returns the first record whose id matches, or \<open>None\<close>.\<close>

definition get :: "'l person list \<Rightarrow> int \<Rightarrow> 'l person option" where
  "get ps i = find (\<lambda>p. ident p = i) ps"

text \<open>
  \<open>q = self.get(i)\<close> followed by an assignment to a key of \<open>q\<close> (when \<open>q\<close> is not \<open>None\<close>)
  changes the first record of the list whose id is \<open>i\<close>.
\<close>

fun modify_first :: "int \<Rightarrow> ('l person \<Rightarrow> 'l person) \<Rightarrow> 'l person list \<Rightarrow> 'l person list" where
  "modify_first i f [] = []"
| "modify_first i f (p # ps) = (if ident p = i then f p # ps else p # modify_first i f ps)"

section \<open>Reciprocal fix-ups\<close>

text \<open>
  \<open>if k not in l: l.append(k)\<close> and \<open>if k in l: l.remove(k)\<close> on the list object at
  address \<open>a\<close>. \<open>list.remove\<close> deletes the first occurrence only, which is \<open>remove1\<close>.
  Every record that holds the address \<open>a\<close> sees the change.
\<close>

definition stick :: "int \<Rightarrow> addr \<Rightarrow> list_heap \<Rightarrow> list_heap" where
  "stick k a h = (if k \<notin> set (h a) then h(a := h a @ [k]) else h)"

definition scrub :: "int \<Rightarrow> addr \<Rightarrow> list_heap \<Rightarrow> list_heap" where
  "scrub k a h = (if k \<in> set (h a) then h(a := remove1 k (h a)) else h)"

text \<open>
  \<open>p = self.get(q); if p and k not in p["hijos"]: p["hijos"].append(k)\<close> and its three
  siblings; a target that \<open>get\<close> does not find is skipped.
\<close>

definition push_hijo :: "int \<Rightarrow> addr person list \<Rightarrow> int \<Rightarrow> list_heap \<Rightarrow> list_heap" where
  "push_hijo k ps q h = (case get ps q of None \<Rightarrow> h | Some p \<Rightarrow> stick k (hijos p) h)"

definition push_padre :: "int \<Rightarrow> addr person list \<Rightarrow> int \<Rightarrow> list_heap \<Rightarrow> list_heap" where
  "push_padre k ps q h = (case get ps q of None \<Rightarrow> h | Some p \<Rightarrow> stick k (padres p) h)"

definition pull_hijo :: "int \<Rightarrow> addr person list \<Rightarrow> int \<Rightarrow> list_heap \<Rightarrow> list_heap" where
  "pull_hijo k ps q h = (case get ps q of None \<Rightarrow> h | Some p \<Rightarrow> scrub k (hijos p) h)"

definition pull_padre :: "int \<Rightarrow> addr person list \<Rightarrow> int \<Rightarrow> list_heap \<Rightarrow> list_heap" where
  "pull_padre k ps q h = (case get ps q of None \<Rightarrow> h | Some p \<Rightarrow> scrub k (padres p) h)"

text \<open>
  The loops \<open>for pid in person["padres"]\<close> of \<open>add_person\<close> and \<open>for parent_id in
  new_parents\<close> of \<open>update_person\<close> run over the list object at address \<open>a\<close> itself: the
  iterator reads position \<open>n\<close> of the list as it is at that moment, so an element that the
  body appends to this very list is visited too.
\<close>

function link_hijo_each ::
  "int \<Rightarrow> addr person list \<Rightarrow> addr \<Rightarrow> nat \<Rightarrow> list_heap \<Rightarrow> list_heap" where
  "link_hijo_each k ps a n h =
     (if n < length (h a) then link_hijo_each k ps a (Suc n) (push_hijo k ps (h a ! n) h)
      else h)"
  by pat_completeness auto

function link_padre_each ::
  "int \<Rightarrow> addr person list \<Rightarrow> addr \<Rightarrow> nat \<Rightarrow> list_heap \<Rightarrow> list_heap" where
  "link_padre_each k ps a n h =
     (if n < length (h a) then link_padre_each k ps a (Suc n) (push_padre k ps (h a ! n) h)
      else h)"
  by pat_completeness auto

text \<open>The measure of both loops: see the termination proofs below.\<close>

definition link_measure :: "int \<Rightarrow> addr \<Rightarrow> nat \<Rightarrow> list_heap \<Rightarrow> nat" where
  "link_measure k a n h = length (h a) + (if k \<in> set (h a) then 0 else 1) - n"

text \<open>
  The loops of \<open>update_person\<close> over a copy of the old list, \<open>list(p["padres"])\<close>: an old
  id that is not in the new list (the object at address \<open>a\<close>, read when the test is made)
  loses the back-reference \<open>k\<close>.
\<close>

fun unlink_hijo_each ::
  "int \<Rightarrow> addr person list \<Rightarrow> addr \<Rightarrow> int list \<Rightarrow> list_heap \<Rightarrow> list_heap" where
  "unlink_hijo_each k ps a [] h = h"
| "unlink_hijo_each k ps a (q # qs) h =
     unlink_hijo_each k ps a qs (if q \<notin> set (h a) then pull_hijo k ps q h else h)"

fun unlink_padre_each ::
  "int \<Rightarrow> addr person list \<Rightarrow> addr \<Rightarrow> int list \<Rightarrow> list_heap \<Rightarrow> list_heap" where
  "unlink_padre_each k ps a [] h = h"
| "unlink_padre_each k ps a (q # qs) h =
     unlink_padre_each k ps a qs (if q \<notin> set (h a) then pull_padre k ps q h else h)"

section \<open>add_person\<close>

text \<open>
  \<open>parents or []\<close>: the caller's list object when one is passed and it is not empty,
  otherwise a new empty list.
\<close>

definition or_empty :: "addr option \<Rightarrow> family_model \<Rightarrow> addr \<times> family_model" where
  "or_empty a m =
     (case a of
        None \<Rightarrow> new_list [] m
      | Some x \<Rightarrow> if heap m x = [] then new_list [] m else (x, m))"

definition add_person ::
  "family_model \<Rightarrow> string \<Rightarrow> string \<Rightarrow> string \<Rightarrow> addr option \<Rightarrow> addr option
     \<Rightarrow> family_model \<times> int" where
  "add_person m name dob description parents children =
     (let new_id = generate_id (people m);
          (a_padres, m1) = or_empty parents m;
          (a_hijos, m2) = or_empty children m1;
          person = \<lparr>ident = new_id, nombre = name, fecha_nacimiento = dob,
                    padres = a_padres, hijos = a_hijos,
                    descripcion = description, pos_x = None, pos_y = None\<rparr>;
          ps = people m2 @ [person];
          h1 = link_hijo_each new_id ps a_padres 0 (heap m2);
          h2 = link_padre_each new_id ps a_hijos 0 h1
      in (save (m2\<lparr>people := ps, heap := h2\<rparr>), new_id))"

section \<open>update_person\<close>

text \<open>
  A keyword argument is absent, passed as \<open>None\<close>, or passed with a value. The test
  \<open>k in kwargs and kwargs[k] is not None\<close> lets only the last through. A list argument is
  the address of the caller's list object.
\<close>

datatype 'a kwarg = Absent | PyNone | Given 'a

fun supplied :: "'a kwarg \<Rightarrow> 'a option" where
  "supplied Absent = None"
| "supplied PyNone = None"
| "supplied (Given v) = Some v"

record 'l kwargs =
  kw_nombre :: "string kwarg"
  kw_fecha_nacimiento :: "string kwarg"
  kw_descripcion :: "string kwarg"
  kw_padres :: "'l kwarg"
  kw_hijos :: "'l kwarg"

text \<open>The loop \<open>for k in ("nombre", "fecha_nacimiento", "descripcion")\<close>.\<close>

definition set_scalars :: "int \<Rightarrow> 'l kwargs \<Rightarrow> 'k person list \<Rightarrow> 'k person list" where
  "set_scalars i kw ps =
     (let ps1 = (case supplied (kw_nombre kw) of
                   Some v \<Rightarrow> modify_first i (\<lambda>r. r\<lparr>nombre := v\<rparr>) ps
                 | None \<Rightarrow> ps);
          ps2 = (case supplied (kw_fecha_nacimiento kw) of
                   Some v \<Rightarrow> modify_first i (\<lambda>r. r\<lparr>fecha_nacimiento := v\<rparr>) ps1
                 | None \<Rightarrow> ps1)
      in (case supplied (kw_descripcion kw) of
            Some v \<Rightarrow> modify_first i (\<lambda>r. r\<lparr>descripcion := v\<rparr>) ps2
          | None \<Rightarrow> ps2))"

text \<open>
  The block under \<open>if "padres" in kwargs and ...\<close>, for the record \<open>p\<close> with id \<open>i\<close> and
  the list object \<open>new_parents\<close> at address \<open>a\<close>: drop the old back-references, store the
  caller's list object itself under \<open>"padres"\<close>, add the new back-references.
\<close>

definition replace_padres ::
  "int \<Rightarrow> addr \<Rightarrow> addr person list \<times> list_heap \<Rightarrow> addr person list \<times> list_heap" where
  "replace_padres i a s =
     (case s of (ps, h) \<Rightarrow>
        (case get ps i of
           None \<Rightarrow> (ps, h)
         | Some p \<Rightarrow>
             let h1 = unlink_hijo_each i ps a (h (padres p)) h;
                 ps1 = modify_first i (\<lambda>r. r\<lparr>padres := a\<rparr>) ps
             in (ps1, link_hijo_each i ps1 a 0 h1)))"

definition replace_hijos ::
  "int \<Rightarrow> addr \<Rightarrow> addr person list \<times> list_heap \<Rightarrow> addr person list \<times> list_heap" where
  "replace_hijos i a s =
     (case s of (ps, h) \<Rightarrow>
        (case get ps i of
           None \<Rightarrow> (ps, h)
         | Some p \<Rightarrow>
             let h1 = unlink_padre_each i ps a (h (hijos p)) h;
                 ps1 = modify_first i (\<lambda>r. r\<lparr>hijos := a\<rparr>) ps
             in (ps1, link_padre_each i ps1 a 0 h1)))"

definition update_person :: "family_model \<Rightarrow> int \<Rightarrow> addr kwargs \<Rightarrow> family_model \<times> bool" where
  "update_person m i kw =
     (case get (people m) i of
        None \<Rightarrow> (m, False)
      | Some _ \<Rightarrow>
          let s3 = (set_scalars i kw (people m), heap m);
              s4 = (case supplied (kw_padres kw) of
                      Some new_parents \<Rightarrow> replace_padres i new_parents s3
                    | None \<Rightarrow> s3);
              s5 = (case supplied (kw_hijos kw) of
                      Some new_children \<Rightarrow> replace_hijos i new_children s4
                    | None \<Rightarrow> s4)
          in (save (m\<lparr>people := fst s5, heap := snd s5\<rparr>), True))"

section \<open>delete_person\<close>

definition delete_person :: "family_model \<Rightarrow> int \<Rightarrow> family_model \<times> bool" where
  "delete_person m i =
     (case get (people m) i of
        None \<Rightarrow> (m, False)
      | Some _ \<Rightarrow>
          let h = fold (\<lambda>other h. scrub i (hijos other) (scrub i (padres other) h))
                       (people m) (heap m);
              ps = filter (\<lambda>x. ident x \<noteq> i) (people m)
          in (save (m\<lparr>people := ps, heap := h\<rparr>), True))"

section \<open>auto_layout\<close>

text \<open>
  \<open>auto_layout\<close> reads \<open>self.model.people\<close> and copies every list it uses
  (\<open>list(p.get("hijos", []))\<close>), so it depends on the contents of the people only: its
  argument is the \<open>view\<close> of the model.
\<close>

text \<open>
  The dictionary comprehension \<open>{p["id"]: list(p["hijos"]) for p in people}\<close>: for an id that
  occurs twice the later record wins, hence the reversed association list.
  \<open>id_to_children.get(nid, [])\<close> is the \<open>case\<close> in \<open>scan_level\<close>.
\<close>

definition id_to_children :: "int list person list \<Rightarrow> int \<Rightarrow> int list option" where
  "id_to_children ps = map_of (rev (map (\<lambda>p. (ident p, hijos p)) ps))"

text \<open>Roots are the people without parents; when there are none, everybody is a root.\<close>

definition roots :: "int list person list \<Rightarrow> int list" where
  "roots ps =
     (let rs = map ident (filter (\<lambda>p. padres p = []) ps)
      in if rs = [] then map ident ps else rs)"

text \<open>
  The inner loop \<open>for c in id_to_children.get(nid, [])\<close> and the loop \<open>for nid in current\<close>
  around it. \<open>visited.add(nid)\<close> happens when \<open>nid\<close> is processed, not before the loop.
\<close>

fun scan_children :: "int set \<Rightarrow> int list \<Rightarrow> int list \<Rightarrow> int list" where
  "scan_children visited [] next_level = next_level"
| "scan_children visited (c # cs) next_level =
     scan_children visited cs
       (if c \<notin> visited \<and> c \<notin> set next_level then next_level @ [c] else next_level)"

fun scan_level :: "int list person list \<Rightarrow> int list \<Rightarrow> int set \<Rightarrow> int list \<Rightarrow> int set \<times> int list" where
  "scan_level ps [] visited next_level = (visited, next_level)"
| "scan_level ps (nid # rest) visited next_level =
     (let visited' = insert nid visited;
          cs = (case id_to_children ps nid of None \<Rightarrow> [] | Some cs \<Rightarrow> cs)
      in scan_level ps rest visited' (scan_children visited' cs next_level))"

text \<open>
  The loop \<open>while current\<close>. The dictionary \<open>levels\<close> gets the keys 0, 1, 2, ... in this
  order, so it is the list of its values: level \<open>k\<close> is the \<open>k\<close>-th element.
\<close>

function bfs_levels :: "int list person list \<Rightarrow> int list \<Rightarrow> int set \<Rightarrow> int list list" where
  "bfs_levels ps current visited =
     (if current = [] then []
      else current # bfs_levels ps (snd (scan_level ps current visited []))
                                   (fst (scan_level ps current visited [])))"
  by pat_completeness auto

text \<open>The measure of the loop: see \<open>bfs_measure_decreases\<close> below.\<close>

definition all_children :: "int list person list \<Rightarrow> int set" where
  "all_children ps = (\<Union>p\<in>set ps. set (hijos p))"

definition bfs_measure :: "int list person list \<times> int list \<times> int set \<Rightarrow> nat" where
  "bfs_measure = (\<lambda>(ps, cur, V).
     2 * card ((set cur \<union> all_children ps) - V)
     + (if cur = [] then 0 else if set cur \<subseteq> V then 2 else 1))"

definition levels_of :: "int list person list \<Rightarrow> int list list" where
  "levels_of ps = bfs_levels ps (roots ps) {}"

text \<open>
  Positions. \<open>(n - 1) / 2\<close> is Python's true division; the coordinates are multiples of 100,
  which binary floating point represents exactly, so they are modelled as reals.
  \<open>level_positions lvl ids\<close> lists the arguments of the calls \<open>setPos(x, y)\<close> that the loop
  \<open>for i, nid in enumerate(ids)\<close> computes for one level.
\<close>

definition x_gap :: real where
  "x_gap = 200"

definition y_gap :: real where
  "y_gap = 200"

definition level_positions :: "nat \<Rightarrow> int list \<Rightarrow> (int \<times> real \<times> real) list" where
  "level_positions lvl ids =
     map (\<lambda>(i, nid). (nid, (real i - real_of_int (int (length ids) - 1) / 2) * x_gap,
                           real lvl * y_gap))
         (enumerate 0 ids)"

text \<open>
  \<open>node_map\<close> maps the id of every person that has a node to the position of that node;
  \<open>node = self.node_map.get(nid); if node: node.setPos(x, y)\<close> moves existing nodes only.
\<close>

fun set_pos_each ::
  "(int \<times> real \<times> real) list \<Rightarrow> (int \<rightharpoonup> real \<times> real) \<Rightarrow> (int \<rightharpoonup> real \<times> real)" where
  "set_pos_each [] node_map = node_map"
| "set_pos_each ((nid, x, y) # rest) node_map =
     set_pos_each rest
       (case node_map nid of None \<Rightarrow> node_map | Some _ \<Rightarrow> node_map(nid \<mapsto> (x, y)))"

definition auto_layout ::
  "int list person list \<Rightarrow> (int \<rightharpoonup> real \<times> real) \<Rightarrow> (int \<rightharpoonup> real \<times> real)" where
  "auto_layout ps node_map =
     fold (\<lambda>(lvl, ids). set_pos_each (level_positions lvl ids))
          (enumerate 0 (levels_of ps)) node_map"



section \<open>The operations on contents\<close>

text \<open>
  What the three operations do to the contents of the collection when every list object
  belongs to one field of one record only and the caller passes list objects of its own.
  These functions work on lists as values; they are compared with the operations above in
  the section on unshared lists, and stand for them in the proofs that need no sharing.
\<close>

definition append_hijo_val :: "int \<Rightarrow> int list person \<Rightarrow> int list person" where
  "append_hijo_val k p = (if k \<notin> set (hijos p) then p\<lparr>hijos := hijos p @ [k]\<rparr> else p)"

definition append_padre_val :: "int \<Rightarrow> int list person \<Rightarrow> int list person" where
  "append_padre_val k p = (if k \<notin> set (padres p) then p\<lparr>padres := padres p @ [k]\<rparr> else p)"

definition remove_hijo_val :: "int \<Rightarrow> int list person \<Rightarrow> int list person" where
  "remove_hijo_val k p = (if k \<in> set (hijos p) then p\<lparr>hijos := remove1 k (hijos p)\<rparr> else p)"

definition remove_padre_val :: "int \<Rightarrow> int list person \<Rightarrow> int list person" where
  "remove_padre_val k p =
     (if k \<in> set (padres p) then p\<lparr>padres := remove1 k (padres p)\<rparr> else p)"

fun link_hijo_each_val :: "int \<Rightarrow> int list \<Rightarrow> int list person list \<Rightarrow> int list person list" where
  "link_hijo_each_val k [] ps = ps"
| "link_hijo_each_val k (q # qs) ps =
     link_hijo_each_val k qs (modify_first q (append_hijo_val k) ps)"

fun link_padre_each_val :: "int \<Rightarrow> int list \<Rightarrow> int list person list \<Rightarrow> int list person list" where
  "link_padre_each_val k [] ps = ps"
| "link_padre_each_val k (q # qs) ps =
     link_padre_each_val k qs (modify_first q (append_padre_val k) ps)"

fun unlink_hijo_each_val ::
  "int \<Rightarrow> int list \<Rightarrow> int list \<Rightarrow> int list person list \<Rightarrow> int list person list" where
  "unlink_hijo_each_val k new [] ps = ps"
| "unlink_hijo_each_val k new (q # qs) ps =
     unlink_hijo_each_val k new qs
       (if q \<notin> set new then modify_first q (remove_hijo_val k) ps else ps)"

fun unlink_padre_each_val ::
  "int \<Rightarrow> int list \<Rightarrow> int list \<Rightarrow> int list person list \<Rightarrow> int list person list" where
  "unlink_padre_each_val k new [] ps = ps"
| "unlink_padre_each_val k new (q # qs) ps =
     unlink_padre_each_val k new qs
       (if q \<notin> set new then modify_first q (remove_padre_val k) ps else ps)"

definition replace_padres_val :: "int \<Rightarrow> int list \<Rightarrow> int list person list \<Rightarrow> int list person list" where
  "replace_padres_val i new_parents ps =
     (case get ps i of
        None \<Rightarrow> ps
      | Some p \<Rightarrow>
          let ps1 = unlink_hijo_each_val i new_parents (padres p) ps;
              ps2 = modify_first i (\<lambda>r. r\<lparr>padres := new_parents\<rparr>) ps1
          in link_hijo_each_val i new_parents ps2)"

definition replace_hijos_val :: "int \<Rightarrow> int list \<Rightarrow> int list person list \<Rightarrow> int list person list" where
  "replace_hijos_val i new_children ps =
     (case get ps i of
        None \<Rightarrow> ps
      | Some p \<Rightarrow>
          let ps1 = unlink_padre_each_val i new_children (hijos p) ps;
              ps2 = modify_first i (\<lambda>r. r\<lparr>hijos := new_children\<rparr>) ps1
          in link_padre_each_val i new_children ps2)"

definition update_person_val :: "int \<Rightarrow> int list kwargs \<Rightarrow> int list person list \<Rightarrow> int list person list" where
  "update_person_val i kw ps =
     (let ps4 = (case supplied (kw_padres kw) of
                   Some new_parents \<Rightarrow> replace_padres_val i new_parents (set_scalars i kw ps)
                 | None \<Rightarrow> set_scalars i kw ps)
      in (case supplied (kw_hijos kw) of
            Some new_children \<Rightarrow> replace_hijos_val i new_children ps4
          | None \<Rightarrow> ps4))"

definition add_person_val ::
  "string \<Rightarrow> string \<Rightarrow> string \<Rightarrow> int list \<Rightarrow> int list \<Rightarrow> int list person list
     \<Rightarrow> int list person list" where
  "add_person_val name dob description parents children ps =
     (let new_id = generate_id ps;
          person = \<lparr>ident = new_id, nombre = name, fecha_nacimiento = dob,
                    padres = parents, hijos = children,
                    descripcion = description, pos_x = None, pos_y = None\<rparr>;
          ps1 = link_hijo_each_val new_id parents (ps @ [person])
      in link_padre_each_val new_id (hijos (last ps1)) ps1)"

definition delete_person_val :: "int \<Rightarrow> int list person list \<Rightarrow> int list person list" where
  "delete_person_val i ps =
     filter (\<lambda>x. ident x \<noteq> i) (map (\<lambda>other. remove_hijo_val i (remove_padre_val i other)) ps)"

text \<open>The keyword arguments with the supplied list objects replaced by their contents.\<close>

definition kwargs_contents :: "list_heap \<Rightarrow> addr kwargs \<Rightarrow> int list kwargs" where
  "kwargs_contents h kw =
     \<lparr>kw_nombre = kw_nombre kw, kw_fecha_nacimiento = kw_fecha_nacimiento kw,
      kw_descripcion = kw_descripcion kw,
      kw_padres = map_kwarg h (kw_padres kw), kw_hijos = map_kwarg h (kw_hijos kw)\<rparr>"

section \<open>Invariants of the collection and sequences of calls\<close>

text \<open>
  The properties the data model asks of the contents of the collection: ids are unique,
  relationship lists have no duplicates, parent and child links mirror each other (I1),
  and every id in a relationship list belongs to a record that is present (I2).
\<close>

definition unique_ids :: "int list person list \<Rightarrow> bool" where
  "unique_ids ps \<longleftrightarrow> distinct (map ident ps)"

definition duplicate_free :: "int list person list \<Rightarrow> bool" where
  "duplicate_free ps \<longleftrightarrow> (\<forall>a\<in>set ps. distinct (padres a) \<and> distinct (hijos a))"

definition reciprocal :: "int list person list \<Rightarrow> bool" where
  "reciprocal ps \<longleftrightarrow>
     (\<forall>a\<in>set ps. \<forall>b\<in>set ps. (ident b \<in> set (hijos a)) = (ident a \<in> set (padres b)))"

definition no_dangling :: "int list person list \<Rightarrow> bool" where
  "no_dangling ps \<longleftrightarrow>
     (\<forall>a\<in>set ps. \<forall>x\<in>set (padres a) \<union> set (hijos a). get ps x \<noteq> None)"

definition consistent :: "int list person list \<Rightarrow> bool" where
  "consistent ps \<longleftrightarrow> unique_ids ps \<and> duplicate_free ps \<and> reciprocal ps \<and> no_dangling ps"

text \<open>
  A list of ids is valid for a collection when it is duplicate-free and names only records
  that are present. \<open>good h ids a\<close> says this of the list object at address \<open>a\<close>, for the
  set \<open>ids\<close> of the ids present.
\<close>

definition valid_ids :: "int list person list \<Rightarrow> int list \<Rightarrow> bool" where
  "valid_ids ps xs \<longleftrightarrow> distinct xs \<and> (\<forall>x\<in>set xs. get ps x \<noteq> None)"

definition good :: "list_heap \<Rightarrow> int set \<Rightarrow> addr \<Rightarrow> bool" where
  "good h ids a \<longleftrightarrow> distinct (h a) \<and> set (h a) \<subseteq> ids"

text \<open>
  No list object is shared: the addresses held by the records, two per record, are all
  different, and they are addresses of existing objects.
\<close>

definition addrs :: "addr person list \<Rightarrow> addr list" where
  "addrs ps = concat (map (\<lambda>p. [padres p, hijos p]) ps)"

definition unshared :: "family_model \<Rightarrow> bool" where
  "unshared m \<longleftrightarrow> distinct (addrs (people m)) \<and> (\<forall>a\<in>set (addrs (people m)). a < next_addr m)"

text \<open>
  Every list object that a record holds is duplicate-free and names only records that are
  present: \<open>duplicate_free\<close> and \<open>no_dangling\<close> together (see \<open>tidy_iff\<close> below).
\<close>

definition tidy :: "family_model \<Rightarrow> bool" where
  "tidy m \<longleftrightarrow> (\<forall>c\<in>set (addrs (people m)). good (heap m) (ident ` set (people m)) c)"

text \<open>
  A call of one of the three mutating methods, and what it does to the model. \<open>run\<close>
  performs a sequence of calls.
\<close>

datatype operation =
    Add_person string string string "addr option" "addr option"
  | Update_person int "addr kwargs"
  | Delete_person int

fun apply_op :: "family_model \<Rightarrow> operation \<Rightarrow> family_model" where
  "apply_op m (Add_person name dob description parents children) =
     fst (add_person m name dob description parents children)"
| "apply_op m (Update_person i kw) = fst (update_person m i kw)"
| "apply_op m (Delete_person i) = fst (delete_person m i)"

fun run :: "family_model \<Rightarrow> operation list \<Rightarrow> family_model" where
  "run m [] = m"
| "run m (op # ops) = run (apply_op m op) ops"

text \<open>
  A supplied list is valid when it is duplicate-free and names only records that are
  present when the call is made. \<open>valid_run\<close> says that every list supplied in a sequence
  of calls is valid in the state in which its call is made.
\<close>

definition valid_list :: "family_model \<Rightarrow> addr \<Rightarrow> bool" where
  "valid_list m a \<longleftrightarrow> distinct (heap m a) \<and> (\<forall>x\<in>set (heap m a). get (people m) x \<noteq> None)"

definition lists_of :: "operation \<Rightarrow> addr list" where
  "lists_of op =
     (case op of
        Add_person name dob description parents children \<Rightarrow>
          (case parents of None \<Rightarrow> [] | Some a \<Rightarrow> [a])
          @ (case children of None \<Rightarrow> [] | Some a \<Rightarrow> [a])
      | Update_person i kw \<Rightarrow>
          (case supplied (kw_padres kw) of None \<Rightarrow> [] | Some a \<Rightarrow> [a])
          @ (case supplied (kw_hijos kw) of None \<Rightarrow> [] | Some a \<Rightarrow> [a])
      | Delete_person i \<Rightarrow> [])"

definition valid_op :: "family_model \<Rightarrow> operation \<Rightarrow> bool" where
  "valid_op m op \<longleftrightarrow> list_all (valid_list m) (lists_of op)"

fun valid_run :: "family_model \<Rightarrow> operation list \<Rightarrow> bool" where
  "valid_run m [] = True"
| "valid_run m (op # ops) = (valid_op m op \<and> valid_run (apply_op m op) ops)"

text \<open>
  The caller passes list objects of its own: each supplied list is an existing object that
  no record holds, and two lists supplied in one call are two objects.
\<close>

definition own_lists :: "family_model \<Rightarrow> operation \<Rightarrow> bool" where
  "own_lists m op \<longleftrightarrow>
     distinct (lists_of op)
     \<and> list_all (\<lambda>a. a \<notin> set (addrs (people m)) \<and> a < next_addr m) (lists_of op)"

fun own_lists_run :: "family_model \<Rightarrow> operation list \<Rightarrow> bool" where
  "own_lists_run m [] = True"
| "own_lists_run m (op # ops) = (own_lists m op \<and> own_lists_run (apply_op m op) ops)"

section \<open>Example records\<close>

definition mk_person :: "int \<Rightarrow> 'l \<Rightarrow> 'l \<Rightarrow> 'l person" where
  "mk_person i ps hs =
     \<lparr>ident = i, nombre = [], fecha_nacimiento = [], padres = ps, hijos = hs,
      descripcion = [], pos_x = None, pos_y = None\<rparr>"

definition no_kwargs :: "'l kwargs" where
  "no_kwargs =
     \<lparr>kw_nombre = Absent, kw_fecha_nacimiento = Absent, kw_descripcion = Absent,
      kw_padres = Absent, kw_hijos = Absent\<rparr>"

section \<open>Termination of the breadth-first pass\<close>

lemma scan_children_set:
  "set (scan_children V cs nl) = set nl \<union> (set cs - V)"
  by (induction V cs nl rule: scan_children.induct) auto

lemma id_to_children_sub:
  "id_to_children ps n = Some cs \<Longrightarrow> set cs \<subseteq> all_children ps"
  unfolding id_to_children_def all_children_def
  by (auto dest!: map_of_SomeD)

lemma scan_level_fst: "fst (scan_level ps cur V nl) = V \<union> set cur"
  by (induction ps cur V nl rule: scan_level.induct) (auto simp: Let_def)

lemma scan_level_snd:
  "set (snd (scan_level ps cur V nl)) \<subseteq> set nl \<union> (all_children ps - V)"
proof (induction ps cur V nl rule: scan_level.induct)
  case (1 ps visited next_level)
  then show ?case by simp
next
  case (2 ps nid rest visited next_level)
  show ?case
    using 2[OF refl refl] id_to_children_sub[of ps nid]
    by (auto simp: Let_def scan_children_set split: option.splits)
qed

lemma finite_all_children: "finite (all_children ps)"
  by (simp add: all_children_def)

lemma bfs_measure_decreases:
  assumes "cur \<noteq> []"
  shows "bfs_measure (ps, snd (scan_level ps cur V []), fst (scan_level ps cur V []))
         < bfs_measure (ps, cur, V)"
proof -
  let ?nx = "snd (scan_level ps cur V [])"
  let ?C = "all_children ps"
  have nx: "set ?nx \<subseteq> ?C - V" using scan_level_snd[of ps cur V "[]"] by simp
  have fin: "finite ((set cur \<union> ?C) - V)" by (simp add: finite_all_children)
  have sub: "(set ?nx \<union> ?C) - (V \<union> set cur) \<subseteq> (set cur \<union> ?C) - V" using nx by auto
  show ?thesis
  proof (cases "set cur \<subseteq> V")
    case True
    then have eq: "V \<union> set cur = V" by auto
    have le: "card ((set ?nx \<union> ?C) - (V \<union> set cur)) \<le> card ((set cur \<union> ?C) - V)"
      by (rule card_mono[OF fin sub])
    have "?nx \<noteq> [] \<Longrightarrow> \<not> set ?nx \<subseteq> V" using nx by (cases ?nx) auto
    then show ?thesis using le True assms
      by (auto simp: bfs_measure_def scan_level_fst eq)
  next
    case False
    then obtain c where c: "c \<in> set cur" "c \<notin> V" by auto
    have "(set ?nx \<union> ?C) - (V \<union> set cur) \<subset> (set cur \<union> ?C) - V"
      using sub c by auto
    then have "card ((set ?nx \<union> ?C) - (V \<union> set cur)) < card ((set cur \<union> ?C) - V)"
      by (rule psubset_card_mono[OF fin])
    then show ?thesis using False assms
      by (auto simp: bfs_measure_def scan_level_fst)
  qed
qed

termination bfs_levels
  by (relation "measure bfs_measure") (auto simp: bfs_measure_decreases)

declare bfs_levels.simps [simp del]

section \<open>Termination of the loops over a list object\<close>

text \<open>
  The body appends to the list that the loop runs over at most once, since it appends \<open>k\<close>
  only where \<open>k\<close> is missing: the length of the list, plus one while \<open>k\<close> is not in it,
  minus the position reached, decreases with every step.
\<close>

lemma stick_other: "b \<noteq> a \<Longrightarrow> stick k b h a = h a"
  by (simp add: stick_def)

lemma link_measure_stick:
  "n < length (h a) \<Longrightarrow> link_measure k a (Suc n) (stick k b h) < link_measure k a n h"
  by (cases "b = a") (auto simp: link_measure_def stick_def)

lemma link_measure_same:
  "n < length (h a) \<Longrightarrow> link_measure k a (Suc n) h < link_measure k a n h"
  by (auto simp: link_measure_def)

lemma link_measure_push_hijo:
  "n < length (h a) \<Longrightarrow> link_measure k a (Suc n) (push_hijo k ps q h) < link_measure k a n h"
  by (cases "get ps q") (simp_all add: push_hijo_def link_measure_stick link_measure_same)

lemma link_measure_push_padre:
  "n < length (h a) \<Longrightarrow> link_measure k a (Suc n) (push_padre k ps q h) < link_measure k a n h"
  by (cases "get ps q") (simp_all add: push_padre_def link_measure_stick link_measure_same)

termination link_hijo_each
  by (relation "measure (\<lambda>(k, ps, a, n, h). link_measure k a n h)")
     (auto simp: link_measure_push_hijo)

termination link_padre_each
  by (relation "measure (\<lambda>(k, ps, a, n, h). link_measure k a n h)")
     (auto simp: link_measure_push_padre)

declare link_hijo_each.simps [simp del]
declare link_padre_each.simps [simp del]

section \<open>Basic facts about the store operations\<close>

lemma map_modify_first:
  "(\<And>r. g (f r) = g r) \<Longrightarrow> map g (modify_first i f ps) = map g ps"
  by (induction ps) auto

lemma max_default_Max:
  "max_default xs d = (if xs = [] then d else Max (set xs))"
  by (cases xs) (simp_all add: max_default_def Max.set_eq_fold[symmetric])

lemma get_None_iff: "get ps i = None \<longleftrightarrow> i \<notin> ident ` set ps"
  by (auto simp: get_def find_None_iff)

lemma get_Some_ident: "get ps i = Some p \<Longrightarrow> ident p = i \<and> p \<in> set ps"
  by (auto simp: get_def find_Some_iff)

lemma ident_lt_generate_id: "p \<in> set ps \<Longrightarrow> ident p < generate_id ps"
proof -
  assume a: "p \<in> set ps"
  then have ne: "ps \<noteq> []" by auto
  have "ident p \<le> Max (set (map ident ps))" using a by (intro Max_ge) auto
  then show ?thesis using ne by (simp add: generate_id_def max_default_Max)
qed

lemma ident_contents [simp]: "ident (contents h p) = ident p"
  by (simp add: contents_def)

lemma padres_contents [simp]: "padres (contents h p) = h (padres p)"
  by (simp add: contents_def)

lemma hijos_contents [simp]: "hijos (contents h p) = h (hijos p)"
  by (simp add: contents_def)

lemma map_ident_view: "map ident (view m) = map ident (people m)"
  by (simp add: view_def)

lemma get_map_ident:
  "(\<And>r. ident (f r) = ident r) \<Longrightarrow> get (map f ps) j = map_option f (get ps j)"
  by (induction ps) (auto simp: get_def)

lemma get_view: "get (view m) i = map_option (contents (heap m)) (get (people m) i)"
  by (simp add: view_def get_map_ident)

lemma people_new_list [simp]: "people (snd (new_list xs m)) = people m"
  by (simp add: new_list_def)

lemma people_or_empty [simp]: "people (snd (or_empty a m)) = people m"
  by (simp add: or_empty_def split: option.splits)

lemma people_add_person:
  "people (fst (add_person m name dob description parents children))
     = people m @ [\<lparr>ident = generate_id (people m), nombre = name, fecha_nacimiento = dob,
          padres = fst (or_empty parents m),
          hijos = fst (or_empty children (snd (or_empty parents m))),
          descripcion = description, pos_x = None, pos_y = None\<rparr>]"
  by (simp add: add_person_def Let_def case_prod_unfold save_def)

section \<open>Id generation\<close>

text \<open>
  Claim C6. \<open>generate_id\<close> is a function of the collection alone (it returns no new state):
  it is the maximum of the ids present, or 0 when there are none, plus one. It exceeds
  every id present and is 1 on the empty collection. \<open>add_person\<close> returns the value that
  \<open>generate_id\<close> has on the collection before the call, and the record it appends carries
  that id, the ids of the other records staying as they were.
\<close>

theorem generate_id_exceeds_and_add_person_uses_it:
  "generate_id ps = (if ps = [] then 0 else Max (ident ` set ps)) + 1
   \<and> (\<forall>p\<in>set ps. ident p < generate_id ps)
   \<and> generate_id [] = 1
   \<and> snd (add_person m name dob descr parents children) = generate_id (people m)
   \<and> map ident (people (fst (add_person m name dob descr parents children)))
        = map ident (people m) @ [generate_id (people m)]"
proof -
  have 1: "generate_id ps = (if ps = [] then 0 else Max (ident ` set ps)) + 1"
    by (simp add: generate_id_def max_default_Max)
  have 2: "generate_id [] = 1" by (simp add: generate_id_def max_default_def)
  have 3: "snd (add_person m name dob descr parents children) = generate_id (people m)"
    by (simp add: add_person_def Let_def case_prod_unfold)
  have 4: "map ident (people (fst (add_person m name dob descr parents children)))
        = map ident (people m) @ [generate_id (people m)]"
    by (simp add: people_add_person)
  show ?thesis using 1 2 3 4 ident_lt_generate_id by blast
qed

theorem generate_id_exceeds_and_add_person_uses_it_witness:
  "generate_id (people (init_model (Some [mk_person 1 [] [], mk_person 5 [] []]))) = 6
   \<and> list_all (\<lambda>p. ident p
                   < generate_id (people (init_model (Some [mk_person 1 [] [], mk_person 5 [] []]))))
         (people (init_model (Some [mk_person 1 [] [], mk_person 5 [] []])))
   \<and> snd (add_person (snd (new_list [1] (init_model (Some [mk_person 1 [] [], mk_person 5 [] []]))))
             ''Ana'' [] [] (Some 4) None) = 6
   \<and> view (fst (add_person
             (snd (new_list [1] (init_model (Some [mk_person 1 [] [], mk_person 5 [] []]))))
             ''Ana'' [] [] (Some 4) None))
       = [mk_person 1 [] [6], mk_person 5 [] [], (mk_person 6 [1] [])\<lparr>nombre := ''Ana''\<rparr>]"
  using generate_id_exceeds_and_add_person_uses_it
          [of "people (init_model (Some [mk_person 1 [] [], mk_person 5 [] []]))"
              "snd (new_list [1] (init_model (Some [mk_person 1 [] [], mk_person 5 [] []])))"
              "''Ana''" "[]" "[]" "Some 4" None]
  by (simp add: init_model_def load_def mk_person_def new_list_def add_person_def or_empty_def
                Let_def save_def view_def contents_def generate_id_def max_default_def
                link_hijo_each.simps link_padre_each.simps push_hijo_def push_padre_def
                stick_def get_def)

section \<open>Unknown ids\<close>

text \<open>
  Claim C7. When no record has the id, \<open>update_person\<close> and \<open>delete_person\<close> return
  \<open>False\<close> (a value, no exception is raised on this path) and the model, in-memory
  collection, list objects and file, is the one they were given.
\<close>

theorem not_found_returns_False_unchanged:
  "get (people m) i = None \<Longrightarrow>
     update_person m i kw = (m, False) \<and> delete_person m i = (m, False)"
  by (simp add: update_person_def delete_person_def)

theorem not_found_returns_False_unchanged_witness:
  "get (people (init_model (Some [mk_person 1 [] [2], mk_person 2 [1] []]))) 7 = None
   \<and> update_person (init_model (Some [mk_person 1 [] [2], mk_person 2 [1] []])) 7
        (no_kwargs\<lparr>kw_nombre := Given ''Bea'', kw_padres := Given 1\<rparr>)
      = (init_model (Some [mk_person 1 [] [2], mk_person 2 [1] []]), False)
   \<and> delete_person (init_model (Some [mk_person 1 [] [2], mk_person 2 [1] []])) 7
      = (init_model (Some [mk_person 1 [] [2], mk_person 2 [1] []]), False)"
proof -
  have h: "get (people (init_model (Some [mk_person 1 [] [2], mk_person 2 [1] []]))) 7 = None"
    by (simp add: get_def init_model_def load_def mk_person_def)
  show ?thesis using h not_found_returns_False_unchanged [OF h] by simp
qed

section \<open>Deletion\<close>

lemma scrub_apply: "scrub i a h b = (if b = a then remove1 i (h a) else h b)"
  by (simp add: scrub_def remove1_idem)

lemma fold_scrub:
  "fold (scrub i) as h a = ((remove1 i) ^^ count_list as a) (h a)"
proof (induction as arbitrary: h)
  case Nil
  then show ?case by simp
next
  case (Cons x as)
  have "fold (scrub i) (x # as) h a = ((remove1 i) ^^ count_list as a) (scrub i x h a)"
    using Cons[of "scrub i x h"] by simp
  also have "\<dots> = ((remove1 i) ^^ count_list (x # as) a) (h a)"
    by (simp add: scrub_apply[of i x h a] funpow_swap1)
  finally show ?case .
qed

lemma remove1_funpow_distinct:
  "distinct xs \<Longrightarrow> 0 < n \<Longrightarrow> ((remove1 i) ^^ n) xs = remove1 i xs"
proof (induction n)
  case 0
  then show ?case by simp
next
  case (Suc n)
  show ?case
  proof (cases "n = 0")
    case True
    then show ?thesis by simp
  next
    case False
    then have "((remove1 i) ^^ n) xs = remove1 i xs" using Suc by simp
    moreover have "i \<notin> set (remove1 i xs)" using Suc.prems by simp
    ultimately show ?thesis by (simp add: remove1_idem)
  qed
qed

lemma fold_scrub_distinct:
  assumes "distinct (h a)"
  shows "fold (scrub i) as h a = (if a \<in> set as then remove1 i (h a) else h a)"
proof (cases "a \<in> set as")
  case True
  then have "0 < count_list as a" by (simp add: count_list_0_iff zero_less_iff_neq_zero)
  then show ?thesis using True assms by (simp add: fold_scrub remove1_funpow_distinct)
next
  case False
  then show ?thesis by (simp add: fold_scrub count_list_0_iff)
qed

lemma fold_scrub_people:
  "fold (\<lambda>other h. scrub i (hijos other) (scrub i (padres other) h)) ps h
     = fold (scrub i) (addrs ps) h"
  by (induction ps arbitrary: h) (simp_all add: addrs_def)

lemma heap_delete_person:
  "get (people m) i = Some p \<Longrightarrow>
     heap (fst (delete_person m i)) = fold (scrub i) (addrs (people m)) (heap m)"
  by (simp add: delete_person_def Let_def save_def fold_scrub_people)

lemma people_delete_person:
  "get (people m) i = Some p \<Longrightarrow>
     people (fst (delete_person m i)) = filter (\<lambda>x. ident x \<noteq> i) (people m)"
  by (simp add: delete_person_def Let_def save_def)

lemma in_addrs: "p \<in> set ps \<Longrightarrow> padres p \<in> set (addrs ps) \<and> hijos p \<in> set (addrs ps)"
  by (auto simp: addrs_def)

text \<open>
  Claim C5. On a collection whose relationship lists are duplicate-free, after
  \<open>delete_person m i\<close> has returned \<open>True\<close> no remaining record has \<open>i\<close> among its
  \<open>padres\<close> or \<open>hijos\<close>, and \<open>get\<close> finds no record with id \<open>i\<close>. This holds whether or
  not records share list objects.
\<close>

theorem delete_person_complete:
  assumes df: "\<forall>a\<in>set (view m). distinct (padres a) \<and> distinct (hijos a)"
      and ok: "snd (delete_person m i) = True"
  shows "(\<forall>a\<in>set (view (fst (delete_person m i))).
            i \<notin> set (padres a) \<and> i \<notin> set (hijos a))
         \<and> get (view (fst (delete_person m i))) i = None"
proof -
  from ok obtain p where g: "get (people m) i = Some p"
    by (cases "get (people m) i") (auto simp: delete_person_def)
  let ?m' = "fst (delete_person m i)"
  have hp: "heap ?m' = fold (scrub i) (addrs (people m)) (heap m)"
    by (rule heap_delete_person[OF g])
  have pp: "people ?m' = filter (\<lambda>x. ident x \<noteq> i) (people m)"
    by (rule people_delete_person[OF g])
  have d: "\<And>q. q \<in> set (people m) \<Longrightarrow>
             distinct (heap m (padres q)) \<and> distinct (heap m (hijos q))"
    using df by (auto simp: view_def)
  have gone: "\<And>q. q \<in> set (people m) \<Longrightarrow>
             i \<notin> set (heap ?m' (padres q)) \<and> i \<notin> set (heap ?m' (hijos q))"
    using d in_addrs[of _ "people m"] by (simp add: hp fold_scrub_distinct)
  have "get (view ?m') i = None"
    by (auto simp: get_view get_None_iff pp)
  moreover have "\<forall>a\<in>set (view ?m'). i \<notin> set (padres a) \<and> i \<notin> set (hijos a)"
    using gone by (auto simp: view_def pp)
  ultimately show ?thesis by simp
qed

theorem delete_person_complete_witness:
  "list_all (\<lambda>a. distinct (padres a) \<and> distinct (hijos a))
       (view (init_model (Some [mk_person 1 [] [2], mk_person 2 [1] []])))
   \<and> snd (delete_person (init_model (Some [mk_person 1 [] [2], mk_person 2 [1] []])) 1) = True
   \<and> view (fst (delete_person (init_model (Some [mk_person 1 [] [2], mk_person 2 [1] []])) 1))
        = [mk_person 2 [] []]
   \<and> list_all (\<lambda>a. 1 \<notin> set (padres a) \<and> 1 \<notin> set (hijos a))
        (view (fst (delete_person (init_model (Some [mk_person 1 [] [2], mk_person 2 [1] []])) 1)))
   \<and> get (view (fst (delete_person (init_model (Some [mk_person 1 [] [2], mk_person 2 [1] []])) 1))) 1
        = None"
proof -
  have df: "\<forall>a\<in>set (view (init_model (Some [mk_person 1 [] [2], mk_person 2 [1] []]))).
               distinct (padres a) \<and> distinct (hijos a)"
    by (simp add: init_model_def load_def mk_person_def view_def contents_def)
  have ok: "snd (delete_person (init_model (Some [mk_person 1 [] [2], mk_person 2 [1] []])) 1) = True"
    by (simp add: delete_person_def get_def init_model_def load_def mk_person_def Let_def)
  have ps: "view (fst (delete_person (init_model (Some [mk_person 1 [] [2], mk_person 2 [1] []])) 1))
              = [mk_person 2 [] []]"
    by (simp add: delete_person_def get_def init_model_def load_def mk_person_def Let_def save_def
                  view_def contents_def scrub_def)
  show ?thesis using df ok ps delete_person_complete [OF df ok]
    by (simp add: list_all_iff)
qed

text \<open>
  Claim C10. There is an input on which a remaining record lists the deleted id twice:
  \<open>delete_person\<close> removes the first occurrence only and the second one survives. Here
  record 1 has the children \<open>[2, 3, 2]\<close>; after deleting person 2 its children are
  \<open>[3, 2]\<close>, although no record with id 2 is left.
\<close>

theorem delete_person_keeps_later_duplicate:
  "snd (delete_person
          (init_model (Some [mk_person 1 [] [2, 3, 2], mk_person 2 [1] [], mk_person 3 [1] []])) 2)
     = True
   \<and> view (fst (delete_person
          (init_model (Some [mk_person 1 [] [2, 3, 2], mk_person 2 [1] [], mk_person 3 [1] []])) 2))
     = [mk_person 1 [] [3, 2], mk_person 3 [1] []]
   \<and> disk (fst (delete_person
          (init_model (Some [mk_person 1 [] [2, 3, 2], mk_person 2 [1] [], mk_person 3 [1] []])) 2))
     = Some [mk_person 1 [] [3, 2], mk_person 3 [1] []]
   \<and> get [mk_person 1 [] [3, 2], mk_person 3 [1] []] 2 = None
   \<and> 2 \<in> set (hijos (mk_person 1 [] [3, 2]))"
  by (simp add: delete_person_def get_def init_model_def load_def mk_person_def Let_def save_def
                view_def contents_def scrub_def)

section \<open>Layout\<close>






lemma length_level_positions [simp]: "length (level_positions lvl ids) = length ids"
  by (simp add: level_positions_def)











text \<open>
  Claim C3 says that a node is placed in exactly one level, the one where it is first
  reached, and is not moved when it is found again. The pass marks a node visited only when
  it processes it, so a node that sits later in the current level is put into the next
  level too. Two roots 1 and 2; 3 is a child of 1; 4 is a child of 2 and of 3. Node 4 is
  reached in level 1 (from 2), found again from 3 and also put in level 2, and its final
  position is the one of level 2.
\<close>

theorem auto_layout_moves_rediscovered_node:
  "levels_of [mk_person 1 [] [3], mk_person 2 [] [4], mk_person 3 [1] [4], mk_person 4 [2, 3] []]
     = [[1, 2], [3, 4], [4]]
   \<and> level_positions 1 [3, 4] = [(3, -100, 200), (4, 100, 200)]
   \<and> auto_layout [mk_person 1 [] [3], mk_person 2 [] [4], mk_person 3 [1] [4], mk_person 4 [2, 3] []]
        [1 \<mapsto> (0, 0), 2 \<mapsto> (0, 0), 3 \<mapsto> (0, 0), 4 \<mapsto> (0, 0)] 4 = Some (0, 400)"
  by (simp add: auto_layout_def level_positions_def enumerate_eq_zip levels_of_def roots_def
                mk_person_def id_to_children_def x_gap_def y_gap_def bfs_levels.simps)




section \<open>Keyword arguments passed as None\<close>

lemma get_modify_first:
  "(\<And>r. ident (f r) = ident r) \<Longrightarrow>
     get (modify_first i f ps) j = (if j = i then map_option f (get ps j) else get ps j)"
  by (induction ps) (auto simp: get_def)

lemma map_ident_set_scalars: "map ident (set_scalars i kw ps) = map ident ps"
  by (simp add: set_scalars_def Let_def map_modify_first split: option.splits)



lemma fst_replace_padres:
  "fst (replace_padres i a (ps, h))
     = (case get ps i of None \<Rightarrow> ps | Some p \<Rightarrow> modify_first i (\<lambda>r. r\<lparr>padres := a\<rparr>) ps)"
  by (simp add: replace_padres_def Let_def split: option.splits)

lemma fst_replace_hijos:
  "fst (replace_hijos i a (ps, h))
     = (case get ps i of None \<Rightarrow> ps | Some p \<Rightarrow> modify_first i (\<lambda>r. r\<lparr>hijos := a\<rparr>) ps)"
  by (simp add: replace_hijos_def Let_def split: option.splits)

















section \<open>No dangling reference along sequences of calls\<close>

text \<open>
  Appending an id that is present and removing an id keep a list object duplicate-free and
  within the ids present, whichever object is changed and whoever shares it.
\<close>

lemma good_mono: "ids \<subseteq> ids' \<Longrightarrow> good h ids c \<Longrightarrow> good h ids' c"
  by (auto simp: good_def)

lemma good_stick: "k \<in> ids \<Longrightarrow> good h ids c \<Longrightarrow> good (stick k b h) ids c"
  by (auto simp: good_def stick_def)

lemma good_scrub: "good h ids c \<Longrightarrow> good (scrub k b h) ids c"
  by (auto simp: good_def scrub_def dest: notin_set_remove1)

lemma good_push_hijo: "k \<in> ids \<Longrightarrow> good h ids c \<Longrightarrow> good (push_hijo k ps q h) ids c"
  by (simp add: push_hijo_def good_stick split: option.splits)

lemma good_push_padre: "k \<in> ids \<Longrightarrow> good h ids c \<Longrightarrow> good (push_padre k ps q h) ids c"
  by (simp add: push_padre_def good_stick split: option.splits)

lemma good_pull_hijo: "good h ids c \<Longrightarrow> good (pull_hijo k ps q h) ids c"
  by (simp add: pull_hijo_def good_scrub split: option.splits)

lemma good_pull_padre: "good h ids c \<Longrightarrow> good (pull_padre k ps q h) ids c"
  by (simp add: pull_padre_def good_scrub split: option.splits)

lemma good_link_hijo_each:
  "k \<in> ids \<Longrightarrow> good h ids c \<Longrightarrow> good (link_hijo_each k ps a n h) ids c"
proof (induction k ps a n h rule: link_hijo_each.induct)
  case (1 k ps a n h)
  show ?case
  proof (cases "n < length (h a)")
    case True
    have "good (push_hijo k ps (h a ! n) h) ids c" using "1.prems" by (simp add: good_push_hijo)
    then show ?thesis using "1.IH"[OF True "1.prems"(1)] True
      by (simp add: link_hijo_each.simps[of k ps a n h])
  next
    case False
    then show ?thesis using "1.prems" by (simp add: link_hijo_each.simps[of k ps a n h])
  qed
qed

lemma good_link_padre_each:
  "k \<in> ids \<Longrightarrow> good h ids c \<Longrightarrow> good (link_padre_each k ps a n h) ids c"
proof (induction k ps a n h rule: link_padre_each.induct)
  case (1 k ps a n h)
  show ?case
  proof (cases "n < length (h a)")
    case True
    have "good (push_padre k ps (h a ! n) h) ids c" using "1.prems" by (simp add: good_push_padre)
    then show ?thesis using "1.IH"[OF True "1.prems"(1)] True
      by (simp add: link_padre_each.simps[of k ps a n h])
  next
    case False
    then show ?thesis using "1.prems" by (simp add: link_padre_each.simps[of k ps a n h])
  qed
qed

lemma good_unlink_hijo_each: "good h ids c \<Longrightarrow> good (unlink_hijo_each k ps a qs h) ids c"
  by (induction qs arbitrary: h) (simp_all add: good_pull_hijo)

lemma good_unlink_padre_each: "good h ids c \<Longrightarrow> good (unlink_padre_each k ps a qs h) ids c"
  by (induction qs arbitrary: h) (simp_all add: good_pull_padre)

lemma set_addrs: "set (addrs ps) = (\<Union>p\<in>set ps. {padres p, hijos p})"
  by (auto simp: addrs_def)

lemma addrs_modify_padres:
  "set (addrs (modify_first i (\<lambda>r. r\<lparr>padres := a\<rparr>) ps)) \<subseteq> insert a (set (addrs ps))"
  by (induction ps) (auto simp: addrs_def)

lemma addrs_modify_hijos:
  "set (addrs (modify_first i (\<lambda>r. r\<lparr>hijos := a\<rparr>) ps)) \<subseteq> insert a (set (addrs ps))"
  by (induction ps) (auto simp: addrs_def)

lemma addrs_set_scalars: "addrs (set_scalars i kw ps) = addrs ps"
proof -
  have "\<And>f ps. (\<And>r. padres (f r) = padres r) \<Longrightarrow> (\<And>r. hijos (f r) = hijos r)
          \<Longrightarrow> addrs (modify_first i f ps) = addrs ps"
  proof -
    fix f :: "addr person \<Rightarrow> addr person" and ps
    assume "\<And>r. padres (f r) = padres r" "\<And>r. hijos (f r) = hijos r"
    then show "addrs (modify_first i f ps) = addrs ps"
      by (induction ps) (auto simp: addrs_def)
  qed
  then show ?thesis by (simp add: set_scalars_def Let_def split: option.splits)
qed

lemma idents_modify_first:
  "(\<And>r. ident (f r) = ident r) \<Longrightarrow> ident ` set (modify_first i f ps) = ident ` set ps"
  using map_modify_first[of ident f i ps] by (metis set_map)

lemma idents_set_scalars: "ident ` set (set_scalars i kw ps) = ident ` set ps"
  using map_ident_set_scalars[of i kw ps] by (metis set_map)

text \<open>The two invariants together, in terms of the list objects that the records hold.\<close>

lemma tidy_iff:
  "duplicate_free (view m) \<and> no_dangling (view m)
     \<longleftrightarrow> (\<forall>c\<in>set (addrs (people m)). good (heap m) (ident ` set (people m)) c)"
proof -
  have g: "\<And>x. (get (view m) x \<noteq> None) = (x \<in> ident ` set (people m))"
    by (simp add: get_view get_None_iff)
  show ?thesis
    unfolding duplicate_free_def no_dangling_def g
    by (auto simp: view_def set_addrs good_def)
qed

lemma valid_list_good: "valid_list m a \<longleftrightarrow> good (heap m) (ident ` set (people m)) a"
  by (auto simp: valid_list_def good_def get_None_iff)

lemma good_replace_padres:
  assumes "good h ids c" and "get ps i \<noteq> None \<longrightarrow> i \<in> ids"
  shows "good (snd (replace_padres i a (ps, h))) ids c"
  using assms
  by (auto simp: replace_padres_def Let_def good_link_hijo_each good_unlink_hijo_each
           split: option.splits)

lemma good_replace_hijos:
  assumes "good h ids c" and "get ps i \<noteq> None \<longrightarrow> i \<in> ids"
  shows "good (snd (replace_hijos i a (ps, h))) ids c"
  using assms
  by (auto simp: replace_hijos_def Let_def good_link_padre_each good_unlink_padre_each
           split: option.splits)

lemma addrs_replace_padres:
  "set (addrs (fst (replace_padres i a (ps, h)))) \<subseteq> insert a (set (addrs ps))"
  using addrs_modify_padres[of i a ps] by (auto simp: fst_replace_padres split: option.splits)

lemma addrs_replace_hijos:
  "set (addrs (fst (replace_hijos i a (ps, h)))) \<subseteq> insert a (set (addrs ps))"
  using addrs_modify_hijos[of i a ps] by (auto simp: fst_replace_hijos split: option.splits)

lemma idents_replace_padres: "ident ` set (fst (replace_padres i a (ps, h))) = ident ` set ps"
  by (simp add: fst_replace_padres idents_modify_first split: option.splits)

lemma idents_replace_hijos: "ident ` set (fst (replace_hijos i a (ps, h))) = ident ` set ps"
  by (simp add: fst_replace_hijos idents_modify_first split: option.splits)


lemma tidy_update_person:
  assumes T: "tidy m" and V: "valid_op m (Update_person i kw)"
  shows "tidy (fst (update_person m i kw))"
proof (cases "get (people m) i")
  case None
  then show ?thesis using T by (simp add: update_person_def)
next
  case (Some p)
  let ?ids = "ident ` set (people m)"
  let ?C = "set (addrs (people m)) \<union> set (lists_of (Update_person i kw))"
  let ?s3 = "(set_scalars i kw (people m), heap m)"
  let ?s4 = "case supplied (kw_padres kw) of Some a \<Rightarrow> replace_padres i a ?s3 | None \<Rightarrow> ?s3"
  let ?s5 = "case supplied (kw_hijos kw) of Some b \<Rightarrow> replace_hijos i b ?s4 | None \<Rightarrow> ?s4"
  have i: "i \<in> ?ids" using get_Some_ident[OF Some] by auto
  have g0: "\<forall>c\<in>?C. good (heap m) ?ids c"
    using T V by (auto simp: tidy_def valid_op_def list_all_iff valid_list_good)
  have pa: "\<And>a. supplied (kw_padres kw) = Some a \<Longrightarrow> a \<in> ?C"
    by (simp add: lists_of_def)
  have hi: "\<And>b. supplied (kw_hijos kw) = Some b \<Longrightarrow> b \<in> ?C"
    by (simp add: lists_of_def)
  have s4: "(\<forall>c\<in>?C. good (snd ?s4) ?ids c) \<and> ident ` set (fst ?s4) = ?ids
            \<and> set (addrs (fst ?s4)) \<subseteq> ?C"
  proof (cases "supplied (kw_padres kw)")
    case None
    then show ?thesis using g0 by (simp add: idents_set_scalars addrs_set_scalars)
  next
    case (Some a)
    have "\<forall>c\<in>?C. good (snd (replace_padres i a ?s3)) ?ids c"
      using g0 i by (simp add: good_replace_padres)
    moreover have "set (addrs (fst (replace_padres i a ?s3))) \<subseteq> ?C"
      using addrs_replace_padres[of i a "set_scalars i kw (people m)" "heap m"] pa[OF Some]
      by (auto simp: addrs_set_scalars)
    ultimately show ?thesis using Some
      by (simp add: idents_replace_padres idents_set_scalars)
  qed
  obtain ps4 h4 where e4: "?s4 = (ps4, h4)" by (cases ?s4) auto
  have s4': "\<forall>c\<in>?C. good h4 ?ids c" "ident ` set ps4 = ?ids" "set (addrs ps4) \<subseteq> ?C"
    using s4 unfolding e4 by simp_all
  have s5: "(\<forall>c\<in>set (addrs (fst ?s5)). good (snd ?s5) (ident ` set (fst ?s5)) c)"
  proof (cases "supplied (kw_hijos kw)")
    case None
    then show ?thesis using s4' unfolding e4 by auto
  next
    case (Some b)
    have "\<forall>c\<in>?C. good (snd (replace_hijos i b (ps4, h4))) ?ids c"
      using s4'(1) i by (simp add: good_replace_hijos)
    moreover have "set (addrs (fst (replace_hijos i b (ps4, h4)))) \<subseteq> ?C"
      using addrs_replace_hijos[of i b ps4 h4] hi[OF Some] s4'(3) by auto
    moreover have "ident ` set (fst (replace_hijos i b (ps4, h4))) = ?ids"
      by (simp add: idents_replace_hijos s4'(2))
    ultimately show ?thesis using Some unfolding e4 by auto
  qed
  have "people (fst (update_person m i kw)) = fst ?s5" "heap (fst (update_person m i kw)) = snd ?s5"
    using Some by (simp_all add: update_person_def Let_def save_def)
  then show ?thesis using s5 by (simp add: tidy_def)
qed

lemma good_new_list: "good (heap m) ids c \<Longrightarrow> good (heap (snd (new_list [] m))) ids c"
  by (simp add: new_list_def good_def)

lemma good_or_empty: "good (heap m) ids c \<Longrightarrow> good (heap (snd (or_empty x m))) ids c"
  by (simp add: or_empty_def good_new_list split: option.splits)

lemma good_or_empty_fst:
  "(\<And>y. x = Some y \<Longrightarrow> good (heap m) ids y)
     \<Longrightarrow> good (heap (snd (or_empty x m))) ids (fst (or_empty x m))"
  by (auto simp: or_empty_def new_list_def good_def split: option.splits)

lemma heap_add_person:
  "heap (fst (add_person m name dob description parents children))
     = link_padre_each (generate_id (people m))
         (people (fst (add_person m name dob description parents children)))
         (fst (or_empty children (snd (or_empty parents m)))) 0
         (link_hijo_each (generate_id (people m))
            (people (fst (add_person m name dob description parents children)))
            (fst (or_empty parents m)) 0
            (heap (snd (or_empty children (snd (or_empty parents m))))))"
  by (simp add: add_person_def Let_def case_prod_unfold save_def)

lemma tidy_add_person:
  assumes T: "tidy m" and V: "valid_op m (Add_person name dob description parents children)"
  shows "tidy (fst (add_person m name dob description parents children))"
proof -
  let ?ids = "ident ` set (people m)"
  let ?new = "generate_id (people m)"
  let ?ids' = "insert ?new ?ids"
  let ?m1 = "snd (or_empty parents m)"
  let ?a1 = "fst (or_empty parents m)"
  let ?m2 = "snd (or_empty children ?m1)"
  let ?a2 = "fst (or_empty children ?m1)"
  let ?m' = "fst (add_person m name dob description parents children)"
  have vp: "\<And>y. parents = Some y \<Longrightarrow> good (heap m) ?ids y"
    using V by (auto simp: valid_op_def lists_of_def valid_list_good)
  have vc: "\<And>y. children = Some y \<Longrightarrow> good (heap m) ?ids y"
    using V by (auto simp: valid_op_def lists_of_def valid_list_good split: option.splits)
  have vc1: "\<And>y. children = Some y \<Longrightarrow> good (heap ?m1) ?ids y"
    using vc by (simp add: good_or_empty)
  have a1: "good (heap ?m2) ?ids ?a1"
    using good_or_empty_fst[of parents m ?ids] vp by (simp add: good_or_empty)
  have a2: "good (heap ?m2) ?ids ?a2"
    using good_or_empty_fst[of children ?m1 ?ids] vc1 by simp
  have old: "\<And>c. c \<in> set (addrs (people m)) \<Longrightarrow> good (heap ?m2) ?ids c"
    using T by (simp add: tidy_def good_or_empty)
  have pp: "people ?m' = people m @ [\<lparr>ident = ?new, nombre = name, fecha_nacimiento = dob,
          padres = ?a1, hijos = ?a2, descripcion = description, pos_x = None, pos_y = None\<rparr>]"
    by (rule people_add_person)
  have ad: "set (addrs (people ?m')) = set (addrs (people m)) \<union> {?a1, ?a2}"
    by (auto simp: pp addrs_def)
  have idn: "ident ` set (people ?m') = ?ids'" by (auto simp: pp)
  have "\<And>c. c \<in> set (addrs (people ?m')) \<Longrightarrow> good (heap ?m2) ?ids' c"
    using old a1 a2 good_mono[of ?ids ?ids'] unfolding ad by auto
  then have "\<And>c. c \<in> set (addrs (people ?m')) \<Longrightarrow> good (heap ?m') ?ids' c"
    by (simp add: heap_add_person good_link_padre_each good_link_hijo_each)
  then show ?thesis unfolding tidy_def idn by blast
qed

lemma tidy_delete_person:
  assumes T: "tidy m"
  shows "tidy (fst (delete_person m i))"
proof (cases "get (people m) i")
  case None
  then show ?thesis using T by (simp add: delete_person_def)
next
  case (Some p)
  let ?m' = "fst (delete_person m i)"
  have hp: "heap ?m' = fold (scrub i) (addrs (people m)) (heap m)"
    by (rule heap_delete_person[OF Some])
  have pp: "people ?m' = filter (\<lambda>x. ident x \<noteq> i) (people m)"
    by (rule people_delete_person[OF Some])
  have idn: "ident ` set (people ?m') = ident ` set (people m) - {i}"
    by (auto simp: pp)
  have sub: "set (addrs (people ?m')) \<subseteq> set (addrs (people m))"
    by (auto simp: pp set_addrs)
  have "\<And>c. c \<in> set (addrs (people m)) \<Longrightarrow> good (heap ?m') (ident ` set (people m) - {i}) c"
  proof -
    fix c assume c: "c \<in> set (addrs (people m))"
    then have g: "distinct (heap m c)" "set (heap m c) \<subseteq> ident ` set (people m)"
      using T by (auto simp: tidy_def good_def)
    have "heap ?m' c = remove1 i (heap m c)"
      using c g(1) by (simp add: hp fold_scrub_distinct)
    then show "good (heap ?m') (ident ` set (people m) - {i}) c"
      using g by (auto simp: good_def)
  qed
  then show ?thesis using sub unfolding tidy_def idn by blast
qed

lemma tidy_apply_op: "tidy m \<Longrightarrow> valid_op m op \<Longrightarrow> tidy (apply_op m op)"
  by (cases op) (simp_all add: tidy_add_person tidy_update_person tidy_delete_person)

lemma tidy_run: "tidy m \<Longrightarrow> valid_run m ops \<Longrightarrow> tidy (run m ops)"
  by (induction ops arbitrary: m) (auto simp: tidy_apply_op)

text \<open>
  Claim C2, as the code has it. Start from a collection with duplicate-free relationship
  lists and no dangling reference (the empty collection is one). After every sequence of
  \<open>add_person\<close>, \<open>update_person\<close> and \<open>delete_person\<close> calls whose supplied relationship
  lists are duplicate-free and name only records present at the time of the call, every id
  in a \<open>padres\<close> or \<open>hijos\<close> list belongs to a record that \<open>get\<close> finds, and the lists are
  still duplicate-free. This holds whether or not list objects are shared.
\<close>

theorem no_dangling_after_valid_calls:
  "duplicate_free (view m) \<Longrightarrow> no_dangling (view m) \<Longrightarrow> valid_run m ops
     \<Longrightarrow> no_dangling (view (run m ops)) \<and> duplicate_free (view (run m ops))"
  using tidy_run[of m ops] tidy_iff[of m] tidy_iff[of "run m ops"] by (simp add: tidy_def)


theorem no_dangling_after_valid_calls_witness:
  "duplicate_free (view (snd (new_list [1] (init_model (Some [mk_person 1 [] [2], mk_person 2 [1] []])))))
   \<and> no_dangling (view (snd (new_list [1] (init_model (Some [mk_person 1 [] [2], mk_person 2 [1] []])))))
   \<and> valid_run (snd (new_list [1] (init_model (Some [mk_person 1 [] [2], mk_person 2 [1] []]))))
        [Update_person 2 (no_kwargs\<lparr>kw_padres := Given 4, kw_hijos := Given 4\<rparr>)]
   \<and> view (run (snd (new_list [1] (init_model (Some [mk_person 1 [] [2], mk_person 2 [1] []]))))
        [Update_person 2 (no_kwargs\<lparr>kw_padres := Given 4, kw_hijos := Given 4\<rparr>)])
      = [mk_person 1 [2] [2], mk_person 2 [1] [1]]
   \<and> no_dangling (view (run (snd (new_list [1] (init_model (Some [mk_person 1 [] [2], mk_person 2 [1] []]))))
        [Update_person 2 (no_kwargs\<lparr>kw_padres := Given 4, kw_hijos := Given 4\<rparr>)]))"
proof -
  let ?m = "snd (new_list [1] (init_model (Some [mk_person 1 [] [2], mk_person 2 [1] []])))"
  let ?ops = "[Update_person 2 (no_kwargs\<lparr>kw_padres := Given 4, kw_hijos := Given 4\<rparr>)]"
  have v0: "view ?m = [mk_person 1 [] [2], mk_person 2 [1] []]"
    by (simp add: init_model_def load_def new_list_def view_def contents_def mk_person_def)
  have d: "duplicate_free (view ?m)"
    unfolding v0 by (simp add: duplicate_free_def mk_person_def)
  have n: "no_dangling (view ?m)"
    unfolding v0 by (simp add: no_dangling_def mk_person_def get_def)
  have v: "valid_run ?m ?ops"
    by (simp add: valid_op_def lists_of_def valid_list_def no_kwargs_def init_model_def load_def
                  new_list_def get_def mk_person_def)
  have r: "view (run ?m ?ops) = [mk_person 1 [2] [2], mk_person 2 [1] [1]]"
    by (simp add: update_person_def get_def init_model_def load_def mk_person_def Let_def save_def
                  new_list_def no_kwargs_def set_scalars_def replace_padres_def replace_hijos_def
                  view_def contents_def link_hijo_each.simps link_padre_each.simps
                  push_hijo_def push_padre_def pull_hijo_def pull_padre_def stick_def scrub_def)
  from d n v r no_dangling_after_valid_calls [OF d n v] show ?thesis by simp
qed

text \<open>
  Called with a relationship id that is not in the collection, \<open>add_person\<close> keeps the id
  in the new record: only the fix-up of the missing target is skipped. Called with a list
  that names an existing parent twice, it stores both entries, and deleting the parent
  later removes one of them.
\<close>

theorem no_dangling_after_calls_counterexample:
  "view (run (snd (new_list [2] (init_model None))) [Add_person [] [] [] (Some 0) None])
     = [mk_person 1 [2] []]
   \<and> get [mk_person 1 [2] []] 2 = None
   \<and> \<not> no_dangling (view (run (snd (new_list [2] (init_model None)))
                              [Add_person [] [] [] (Some 0) None]))
   \<and> view (run (snd (new_list [1, 1] (init_model None)))
        [Add_person [] [] [] None None, Add_person [] [] [] (Some 0) None, Delete_person 1])
      = [mk_person 2 [1] []]
   \<and> \<not> no_dangling [mk_person 2 [1] []]"
  by (simp add: init_model_def load_def new_list_def add_person_def or_empty_def delete_person_def
                Let_def save_def view_def contents_def mk_person_def generate_id_def
                max_default_def get_def no_dangling_def link_hijo_each.simps
                link_padre_each.simps push_hijo_def push_padre_def stick_def scrub_def)

end
